theory Spec2Isabelle
  imports Main "HOL-Library.Sublist"
begin

section \<open>Characters and character classes\<close>

text \<open>
  Python text is modelled as \<open>string\<close>, a list of 8-bit characters: the code points
  0..255 of a Python \<open>str\<close>. The character classes below are the ones the regular
  expressions and string methods of \<open>processMail\<close> use, restricted to that range.
\<close>

definition code :: "char \<Rightarrow> nat" where
  "code c = of_char c"

text \<open>A range \<open>lo-hi\<close> inside a regular-expression character class.\<close>

definition in_range :: "char \<Rightarrow> char \<Rightarrow> char \<Rightarrow> bool" where
  "in_range lo hi c = (code lo \<le> code c \<and> code c \<le> code hi)"

text \<open>\<open>[0-9]\<close>\<close>

definition is_digit :: "char \<Rightarrow> bool" where
  "is_digit c = in_range (CHR ''0'') (CHR ''9'') c"

text \<open>\<open>[a-zA-Z0-9]\<close>\<close>

definition is_alnum :: "char \<Rightarrow> bool" where
  "is_alnum c = (in_range (CHR ''a'') (CHR ''z'') c \<or> in_range (CHR ''A'') (CHR ''Z'') c
     \<or> in_range (CHR ''0'') (CHR ''9'') c)"

text \<open>
  \<open>\s\<close> in a Python 3 \<open>str\<close> pattern, and the characters \<open>str.strip()\<close> removes:
  tab, newline, vertical tab, form feed, carriage return, the separators 0x1C..0x1F,
  space, and in the Latin-1 range NEL (0x85) and the no-break space (0xA0).
\<close>

definition is_space :: "char \<Rightarrow> bool" where
  "is_space c = ((9 \<le> code c \<and> code c \<le> 13) \<or> (28 \<le> code c \<and> code c \<le> 32)
     \<or> code c = 133 \<or> code c = 160)"

text \<open>
  \<open>str.lower()\<close>: the characters with a lowercase form are \<open>A-Z\<close> and, in the Latin-1
  range, 0xC0..0xDE without the multiplication sign 0xD7; the lowercase form is 32 code
  points higher, which is the same character with bit 5 set.
\<close>

definition has_lower :: "char \<Rightarrow> bool" where
  "has_lower c = (in_range (CHR ''A'') (CHR ''Z'') c
     \<or> (192 \<le> code c \<and> code c \<le> 222 \<and> code c \<noteq> 215))"

fun set_bit5 :: "char \<Rightarrow> char" where
  "set_bit5 (Char b0 b1 b2 b3 b4 b5 b6 b7) = Char b0 b1 b2 b3 b4 True b6 b7"

definition lower_char :: "char \<Rightarrow> char" where
  "lower_char c = (if has_lower c then set_bit5 c else c)"

definition lower :: "string \<Rightarrow> string" where
  "lower s = map lower_char s"

text \<open>\<open>str.strip()\<close> with no argument removes leading and trailing whitespace.\<close>

definition strip :: "string \<Rightarrow> string" where
  "strip s = rev (dropWhile is_space (rev (dropWhile is_space s)))"

section \<open>String search and slicing\<close>

text \<open>
  \<open>s.find(sub)\<close> is the index of the first occurrence of \<open>sub\<close> in \<open>s\<close>, and -1 when
  there is none. \<open>find_from sub s i\<close> scans \<open>s\<close>, whose first character has index \<open>i\<close>.
\<close>

fun find_from :: "string \<Rightarrow> string \<Rightarrow> nat \<Rightarrow> int" where
  "find_from sub [] i = (if sub = [] then int i else - 1)"
| "find_from sub (c # cs) i = (if prefix sub (c # cs) then int i else find_from sub cs (Suc i))"

definition py_find :: "string \<Rightarrow> string \<Rightarrow> int" where
  "py_find s sub = find_from sub s 0"

text \<open>
  The slice \<open>s[i:]\<close>: a negative \<open>i\<close> counts from the end of the string, and an index
  before the start is clipped to 0.
\<close>

definition slice_from :: "string \<Rightarrow> int \<Rightarrow> string" where
  "slice_from s i =
     (if i < 0 then drop (nat (max 0 (int (length s) + i))) s else drop (nat i) s)"

text \<open>
  The header removal of \<open>processMail\<close>:
  \<^verbatim>\<open>
    hdrstart = mail.find(chr(10) + chr(10))
    mail = mail[hdrstart:]
  \<close>
\<close>

definition header_strip :: "string \<Rightarrow> string" where
  "header_strip mail = (let hdrstart = py_find mail [CHR 0x0A, CHR 0x0A] in slice_from mail hdrstart)"

section \<open>Regular-expression substitution\<close>

text \<open>
  \<open>pattern.sub(repl, s)\<close> scans \<open>s\<close> from the left. At each position it tries the pattern;
  on a match the matched text is replaced by \<open>repl\<close> and the scan goes on after the match,
  otherwise the character is kept and the scan moves one position on. A pattern is given by
  its matcher: the length of the match at the start of the text, if there is one. None of
  the patterns of \<open>processMail\<close> matches the empty string (lemmas \<open>*_match_pos\<close> below),
  so a match of length 0 never occurs; the function treats it as no match.
\<close>

fun re_sub :: "(string \<Rightarrow> nat option) \<Rightarrow> string \<Rightarrow> string \<Rightarrow> string" where
  "re_sub m r [] = []"
| "re_sub m r (c # cs) =
     (case m (c # cs) of
        None \<Rightarrow> c # re_sub m r cs
      | Some 0 \<Rightarrow> c # re_sub m r cs
      | Some (Suc n) \<Rightarrow> r @ re_sub m r (drop n cs))"

text \<open>
  \<open><[^<>]+>\<close>: an opening angle bracket, the longest run of characters other than angle
  brackets, which must not be empty, and a closing angle bracket right after the run.
\<close>

definition not_angle :: "char \<Rightarrow> bool" where
  "not_angle c = (c \<noteq> CHR ''<'' \<and> c \<noteq> CHR ''>'')"

definition html_match :: "string \<Rightarrow> nat option" where
  "html_match s =
     (case s of
        [] \<Rightarrow> None
      | c # cs \<Rightarrow>
          (if c = CHR ''<'' \<and> takeWhile not_angle cs \<noteq> []
               \<and> prefix ''>'' (dropWhile not_angle cs)
           then Some (length (takeWhile not_angle cs) + 2) else None))"

text \<open>\<open>[0-9]+\<close>: the longest run of digits, not empty.\<close>

definition number_match :: "string \<Rightarrow> nat option" where
  "number_match s =
     (if takeWhile is_digit s = [] then None else Some (length (takeWhile is_digit s)))"

text \<open>
  \<open>(http|https)://[^\s]*\<close>: one of the two schemes followed by \<open>://\<close>, then the longest
  run of characters that are not whitespace.
\<close>

definition not_space :: "char \<Rightarrow> bool" where
  "not_space c = (\<not> is_space c)"

definition url_match :: "string \<Rightarrow> nat option" where
  "url_match s =
     (if prefix ''http://'' s then Some (7 + length (takeWhile not_space (drop 7 s)))
      else if prefix ''https://'' s then Some (8 + length (takeWhile not_space (drop 8 s)))
      else None)"

text \<open>
  \<open>[^\s]+@[^\s]+\<close>: the first group is greedy, so it takes the whole run of
  non-whitespace characters and gives characters back until an \<open>@\<close> follows that has a
  non-whitespace character after it; the second group then runs to the end of the same
  run. So there is a match exactly when the run has an \<open>@\<close> that is neither its first nor
  its last character, and the match is the whole run.
\<close>

definition email_match :: "string \<Rightarrow> nat option" where
  "email_match s =
     (if CHR ''@'' \<in> set (butlast (tl (takeWhile not_space s)))
      then Some (length (takeWhile not_space s)) else None)"

text \<open>\<open>[$]+\<close>: the longest run of dollar signs, not empty.\<close>

definition is_dollar :: "char \<Rightarrow> bool" where
  "is_dollar c = (c = CHR ''$'')"

definition dollar_match :: "string \<Rightarrow> nat option" where
  "dollar_match s =
     (if takeWhile is_dollar s = [] then None else Some (length (takeWhile is_dollar s)))"

text \<open>\<open>[^a-zA-Z0-9]\<close>: one character that is not an ASCII letter or digit.\<close>

definition non_alnum_match :: "string \<Rightarrow> nat option" where
  "non_alnum_match s = (case s of [] \<Rightarrow> None | c # cs \<Rightarrow> if is_alnum c then None else Some 1)"

definition html_sub :: "string \<Rightarrow> string" where
  "html_sub = re_sub html_match '' ''"

definition number_sub :: "string \<Rightarrow> string" where
  "number_sub = re_sub number_match '' number ''"

definition url_sub :: "string \<Rightarrow> string" where
  "url_sub = re_sub url_match '' httpaddr ''"

definition email_sub :: "string \<Rightarrow> string" where
  "email_sub = re_sub email_match '' emailaddr ''"

definition dollar_sub :: "string \<Rightarrow> string" where
  "dollar_sub = re_sub dollar_match '' dollar ''"

text \<open>The four placeholder substitutions in the order \<open>processMail\<close> applies them.\<close>

definition placeholders :: "string \<Rightarrow> string" where
  "placeholders mail = dollar_sub (email_sub (url_sub (number_sub mail)))"

section \<open>Tokenization\<close>

text \<open>
  The delimiter class of the \<open>re.split\<close> call. The Python source writes the pattern as two
  adjacent string literals,
  \<^verbatim>\<open>'[ @$/#.-:&*+=\[\]?!(){},'  '">_<;%\n\r]'\<close>,
  which the parser joins: the two quotes in the middle end one literal and begin the next
  and add no character to the pattern. Inside the class, \<open>.-:\<close> is the range from the full
  stop (46) to the colon (58).
\<close>

definition is_delim :: "char \<Rightarrow> bool" where
  "is_delim c = (c \<in> set '' @$/#'' \<or> in_range (CHR ''.'') (CHR '':'') c
     \<or> c \<in> set ''&*+=[]?!(){},'' \<or> c = CHR 0x22 \<or> c \<in> set ''>_<;%''
     \<or> c = CHR 0x0A \<or> c = CHR 0x0D)"

text \<open>
  \<open>re.split\<close> on a class of single characters: the text is cut at every delimiter, and
  the pieces between them are returned, empty ones included.
\<close>

fun re_split :: "(char \<Rightarrow> bool) \<Rightarrow> string \<Rightarrow> string list" where
  "re_split d [] = [[]]"
| "re_split d (c # cs) =
     (if d c then [] # re_split d cs
      else (case re_split d cs of [] \<Rightarrow> [[c]] | w # ws \<Rightarrow> (c # w) # ws))"

section \<open>processMail\<close>

text \<open>
  The loop over the pieces: each is stripped of the characters that are not ASCII letters
  or digits, then of surrounding whitespace; when something is left it is stemmed and
  appended. The stemmer (NLTK's \<open>PorterStemmer\<close>) is an external library and a parameter
  here.
\<close>

fun stem_words :: "(string \<Rightarrow> string) \<Rightarrow> string list \<Rightarrow> string list \<Rightarrow> string list" where
  "stem_words stem [] clean_mail = clean_mail"
| "stem_words stem (word # rest) clean_mail =
     (let word' = strip (re_sub non_alnum_match [] word)
      in if length word' \<noteq> 0 then stem_words stem rest (clean_mail @ [stem word'])
         else stem_words stem rest clean_mail)"

definition tokenize :: "string \<Rightarrow> string list" where
  "tokenize mail = re_split is_delim mail"

definition processMail :: "(string \<Rightarrow> string) \<Rightarrow> string \<Rightarrow> string list" where
  "processMail stem mail =
     (let mail1 = header_strip mail;
          mail2 = lower mail1;
          mail3 = html_sub mail2;
          mail4 = number_sub mail3;
          mail5 = url_sub mail4;
          mail6 = email_sub mail5;
          mail7 = dollar_sub mail6
      in stem_words stem (tokenize mail7) [])"

section \<open>createVocabulary\<close>

text \<open>
  The dictionary \<open>all_words_w_count\<close> is an association list in insertion order, the order
  in which Python iterates over a \<open>dict\<close>: assigning to a key that is present changes its
  value in place, assigning to a new key appends the entry.
\<close>

type_synonym word_counts = "(string \<times> nat) list"

fun dict_set :: "string \<Rightarrow> nat \<Rightarrow> word_counts \<Rightarrow> word_counts" where
  "dict_set k v [] = [(k, v)]"
| "dict_set k v ((k', v') # d) = (if k' = k then (k, v) # d else (k', v') # dict_set k v d)"

text \<open>
  \<^verbatim>\<open>
    try:    all_words_w_count[word] += 1
    except: all_words_w_count[word] = 1
  \<close>
  Reading a missing key raises \<open>KeyError\<close>, which the handler turns into the count 1.
\<close>

definition count_word :: "word_counts \<Rightarrow> string \<Rightarrow> word_counts" where
  "count_word d word =
     (case map_of d word of Some c \<Rightarrow> dict_set word (c + 1) d | None \<Rightarrow> dict_set word 1 d)"

fun count_mail :: "word_counts \<Rightarrow> string list \<Rightarrow> word_counts" where
  "count_mail d [] = d"
| "count_mail d (word # mail) = count_mail (count_word d word) mail"

fun count_mails :: "word_counts \<Rightarrow> string list list \<Rightarrow> word_counts" where
  "count_mails d [] = d"
| "count_mails d (mail # mails) = count_mails (count_mail d mail) mails"

text \<open>
  \<open>sorted(items, key=..., reverse=True)\<close>: Python's sort is stable, and with
  \<open>reverse=True\<close> it reverses the list, sorts it in ascending order and reverses the
  result, so that items with equal keys keep their original order. \<open>sort_key\<close> is a
  stable sort as well, and the result of a stable sort does not depend on the algorithm.
\<close>

definition sorted_reverse :: "('a \<Rightarrow> nat) \<Rightarrow> 'a list \<Rightarrow> 'a list" where
  "sorted_reverse key xs = rev (sort_key key (rev xs))"

text \<open>The slice \<open>xs[:i]\<close>; a negative \<open>i\<close> counts from the end.\<close>

definition slice_to :: "'a list \<Rightarrow> int \<Rightarrow> 'a list" where
  "slice_to xs i =
     (if i < 0 then take (nat (max 0 (int (length xs) + i))) xs else take (nat i) xs)"

definition sorted_words :: "string list list \<Rightarrow> string list" where
  "sorted_words mails = map fst (sorted_reverse snd (count_mails [] mails))"

text \<open>Slicing a list with an integer never raises, so the handler of the source is dead.\<close>

definition createVocabulary :: "string list list \<Rightarrow> int \<Rightarrow> string list" where
  "createVocabulary mails sz = slice_to (sorted_words mails) sz"

section \<open>getFeatureMatrix\<close>

text \<open>
  The matrix is a list of rows. Its entries are the floats 0.0 and 1.0 that NumPy stores
  for the truth value of \<open>word in mail\<close>, modelled as the numbers 0 and 1.
\<close>

type_synonym matrix = "nat list list"

definition zeros :: "nat \<Rightarrow> nat \<Rightarrow> matrix" where
  "zeros m n = replicate m (replicate n 0)"

definition set_entry :: "matrix \<Rightarrow> nat \<Rightarrow> nat \<Rightarrow> nat \<Rightarrow> matrix" where
  "set_entry X i j v = X[i := (X ! i)[j := v]]"

fun fill_row :: "matrix \<Rightarrow> nat \<Rightarrow> string list \<Rightarrow> (nat \<times> string) list \<Rightarrow> matrix" where
  "fill_row X i mail [] = X"
| "fill_row X i mail ((j, word) # rest) =
     fill_row (set_entry X i j (if word \<in> set mail then 1 else 0)) i mail rest"

fun fill_rows :: "matrix \<Rightarrow> string list \<Rightarrow> (nat \<times> string list) list \<Rightarrow> matrix" where
  "fill_rows X vocab [] = X"
| "fill_rows X vocab ((i, mail) # rest) =
     fill_rows (fill_row X i mail (enumerate 0 vocab)) vocab rest"

definition getFeatureMatrix :: "string list list \<Rightarrow> string list \<Rightarrow> matrix" where
  "getFeatureMatrix mails vocab =
     (let m = length mails; n = length vocab; X = zeros m n
      in fill_rows X vocab (enumerate 0 mails))"

section \<open>predictSamples\<close>

text \<open>
  What \<open>predictSamples\<close> does to the outside is recorded as a list of events: the lines it
  prints, the files it opens, and its calls of \<open>getFeatureMatrix\<close> and of the classifier.
\<close>

datatype event = Print string | ReadFile string | Vectorize | Classify

text \<open>
  The surroundings of a call: the files under \<open>data/samples\<close> (\<open>None\<close> when opening or
  reading raises), and the two global variables, which are \<open>None\<close> while the cells that
  define them have not run. The classifier is external: its \<open>predict\<close> takes the feature
  matrix and returns the labels, or raises (\<open>None\<close>).
\<close>

record env =
  read_file :: "string \<Rightarrow> string option"
  vocabulary :: "string list option"
  clf :: "(matrix \<Rightarrow> bool list option) option"

text \<open>A run either returns or stops with an uncaught exception, after the events so far.\<close>

datatype outcome = Returned "event list" | Uncaught "event list"

fun events :: "outcome \<Rightarrow> event list" where
  "events (Returned evs) = evs"
| "events (Uncaught evs) = evs"

fun printed_lines :: "event list \<Rightarrow> string list" where
  "printed_lines [] = []"
| "printed_lines (Print s # evs) = s # printed_lines evs"
| "printed_lines (_ # evs) = printed_lines evs"

definition printed :: "outcome \<Rightarrow> string list" where
  "printed out = printed_lines (events out)"

definition msg_nothing :: string where
  "msg_nothing = ''Nothing to predict.''"

definition msg_unreadable :: "string \<Rightarrow> string" where
  "msg_unreadable filename = ''Could not read '' @ filename @ ''.''"

definition msg_no_vocabulary :: string where
  "msg_no_vocabulary = ''No vocabulary has been created.''"

definition msg_no_model :: string where
  "msg_no_model = ''No model has been trained.''"

definition msg_label :: "string \<Rightarrow> bool \<Rightarrow> string" where
  "msg_label filename pred = (if pred then filename @ '' is spam.'' else filename @ '' is not spam.'')"

text \<open>
  The loop that reads the files: an unreadable file is reported and skipped, the text of
  a readable one is processed and appended to \<open>clean_mails\<close>.
\<close>

fun read_mails :: "(string \<Rightarrow> string) \<Rightarrow> (string \<Rightarrow> string option) \<Rightarrow> string list
    \<Rightarrow> event list \<Rightarrow> string list list \<Rightarrow> event list \<times> string list list" where
  "read_mails stem rd [] evs clean_mails = (evs, clean_mails)"
| "read_mails stem rd (filename # rest) evs clean_mails =
     (case rd filename of
        None \<Rightarrow>
          read_mails stem rd rest (evs @ [ReadFile filename, Print (msg_unreadable filename)])
            clean_mails
      | Some mail_contents \<Rightarrow>
          read_mails stem rd rest (evs @ [ReadFile filename])
            (clean_mails @ [processMail stem mail_contents]))"

text \<open>
  The loop that prints the labels: prediction \<open>i\<close> is printed under \<open>filenames[i]\<close>, which
  raises \<open>IndexError\<close> when there are more predictions than file names.
\<close>

fun report :: "string list \<Rightarrow> (nat \<times> bool) list \<Rightarrow> event list \<Rightarrow> outcome" where
  "report filenames [] evs = Returned evs"
| "report filenames ((i, pred) # rest) evs =
     (if i < length filenames
      then report filenames rest (evs @ [Print (msg_label (filenames ! i) pred)])
      else Uncaught evs)"

definition predictSamples :: "(string \<Rightarrow> string) \<Rightarrow> env \<Rightarrow> string list \<Rightarrow> outcome" where
  "predictSamples stem e filenames =
     (if filenames = [] then Returned [Print msg_nothing]
      else
        (case read_mails stem (read_file e) filenames [] [] of
           (evs, clean_mails) \<Rightarrow>
             (case vocabulary e of
                None \<Rightarrow> Returned (evs @ [Print msg_no_vocabulary])
              | Some vocab \<Rightarrow>
                  (let X = getFeatureMatrix clean_mails vocab
                   in case clf e of
                        None \<Rightarrow> Returned (evs @ [Vectorize, Print msg_no_model])
                      | Some predict \<Rightarrow>
                          (case predict X of
                             None \<Rightarrow> Returned (evs @ [Vectorize, Classify, Print msg_no_model])
                           | Some predictions \<Rightarrow>
                               report filenames (enumerate 0 predictions)
                                 (evs @ [Vectorize, Classify]))))))"

section \<open>Example surroundings\<close>

text \<open>
  A sample directory with one readable file, a one-word vocabulary, and a classifier that
  labels a message as spam when it contains that word.
\<close>

definition example_env :: env where
  "example_env =
     \<lparr>read_file = [''mail.txt'' \<mapsto> ''\<newline>\<newline>buy''],
      vocabulary = Some [''buy''],
      clf = Some (\<lambda>X. Some (map (\<lambda>row. row = [1]) X))\<rparr>"



section \<open>Notions used in the properties\<close>

text \<open>The matrix entry for a vocabulary word and a message.\<close>

definition indicator :: "string list \<Rightarrow> string \<Rightarrow> nat" where
  "indicator mail word = (if word \<in> set mail then 1 else 0)"

text \<open>The distinct elements of a list in the order of their first occurrence.\<close>

fun first_seen :: "'a list \<Rightarrow> 'a list" where
  "first_seen [] = []"
| "first_seen (x # xs) = x # filter (\<lambda>y. y \<noteq> x) (first_seen xs)"

text \<open>
  The index of the first occurrence of an element; the length of the list when there is
  none.
\<close>

definition first_pos :: "'a list \<Rightarrow> 'a \<Rightarrow> nat" where
  "first_pos xs a = length (takeWhile (\<lambda>x. x \<noteq> a) xs)"

text \<open>How often a word occurs in the whole corpus.\<close>

definition occurrences :: "string list list \<Rightarrow> string \<Rightarrow> nat" where
  "occurrences mails word = count_list (concat mails) word"





text \<open>A text in which the pattern matches at no position.\<close>

fun match_free :: "(string \<Rightarrow> nat option) \<Rightarrow> string \<Rightarrow> bool" where
  "match_free m [] = True"
| "match_free m (c # cs) = (m (c # cs) = None \<and> match_free m cs)"

section \<open>Evaluation rules\<close>

lemmas char_classes = code_def in_range_def is_digit_def is_alnum_def is_space_def has_lower_def
  lower_char_def lower_def not_angle_def not_space_def is_dollar_def is_delim_def

lemmas matchers = html_match_def number_match_def url_match_def email_match_def dollar_match_def
  non_alnum_match_def html_sub_def number_sub_def url_sub_def email_sub_def dollar_sub_def

lemmas process_defs = processMail_def header_strip_def py_find_def slice_from_def tokenize_def
  strip_def

section \<open>Header removal\<close>

text \<open>
  Claim C2: the header removal returns the text after the first blank line, and the whole
  text when there is no blank line. On a text with no blank line \<open>find\<close> returns -1 and the
  slice \<open>mail[-1:]\<close> keeps the last character only.
\<close>

theorem header_strip_without_blank_line: "header_strip ''Subject: hi'' = ''i''"
  by (simp add: header_strip_def py_find_def slice_from_def)

text \<open>With a blank line, the slice starts at the blank line, which stays in the text.\<close>

lemma header_strip_keeps_separator:
  "header_strip ''Subject: hi\<newline>\<newline>body'' = ''\<newline>\<newline>body''"
  by (simp add: header_strip_def py_find_def slice_from_def)

text \<open>A message without a blank line loses all its words but the last letter.\<close>

lemma processMail_without_blank_line: "processMail (\<lambda>w. w) ''buy cheap meds'' = [''s'']"
  by (simp add: process_defs char_classes matchers)

text \<open>
  In general: a text with no blank line is cut down to its last character, and a text with
  a blank line is cut to start at its first blank line, the two newlines included.
\<close>

lemma find_from_missing:
  "\<forall>t. suffix t s \<longrightarrow> \<not> prefix sub t \<Longrightarrow> find_from sub s i = - 1"
proof (induction s arbitrary: i)
  case Nil
  then show ?case by auto
next
  case (Cons c cs)
  from Cons.prems have "\<not> prefix sub (c # cs)" by auto
  moreover from Cons.prems have "\<forall>t. suffix t cs \<longrightarrow> \<not> prefix sub t"
    by (auto simp: suffix_Cons)
  ultimately show ?case using Cons.IH by simp
qed

lemma find_from_found:
  "suffix t s \<Longrightarrow> prefix sub t \<Longrightarrow>
   \<exists>k \<le> length s. find_from sub s i = int (i + k) \<and> prefix sub (drop k s)"
proof (induction s arbitrary: i)
  case Nil
  then show ?case by auto
next
  case (Cons c cs)
  show ?case
  proof (cases "prefix sub (c # cs)")
    case True
    then have "find_from sub (c # cs) i = int (i + 0) \<and> prefix sub (drop 0 (c # cs))" by simp
    then show ?thesis by blast
  next
    case False
    with Cons.prems have "suffix t cs" by (auto simp: suffix_Cons)
    from Cons.IH [OF this Cons.prems(2), of "Suc i"] obtain k where
      k: "k \<le> length cs" "find_from sub cs (Suc i) = int (Suc i + k)" "prefix sub (drop k cs)"
      by blast
    with False have "Suc k \<le> length (c # cs) \<and> find_from sub (c # cs) i = int (i + Suc k)
        \<and> prefix sub (drop (Suc k) (c # cs))" by simp
    then show ?thesis by blast
  qed
qed

lemma header_strip_no_blank_line:
  assumes "\<forall>t. suffix t mail \<longrightarrow> \<not> prefix [CHR 0x0A, CHR 0x0A] t"
  shows "header_strip mail = drop (length mail - 1) mail"
proof -
  have "py_find mail [CHR 0x0A, CHR 0x0A] = - 1"
    unfolding py_find_def using assms by (rule find_from_missing)
  then show ?thesis
    by (cases "mail = []") (simp_all add: header_strip_def slice_from_def nat_diff_distrib')
qed

lemma header_strip_blank_line:
  assumes "suffix t mail" and "prefix [CHR 0x0A, CHR 0x0A] t"
  shows "prefix [CHR 0x0A, CHR 0x0A] (header_strip mail)"
proof -
  from find_from_found [OF assms, of 0] obtain k where
    "py_find mail [CHR 0x0A, CHR 0x0A] = int k" "prefix [CHR 0x0A, CHR 0x0A] (drop k mail)"
    unfolding py_find_def by auto
  then show ?thesis by (simp add: header_strip_def slice_from_def)
qed

section \<open>The delimiter class\<close>

text \<open>
  Claim C3: the text is split exactly at the characters of the listed delimiter set, which
  contains the hyphen and the single quote and no digit. In the pattern of the source the
  hyphen stands for a range and the single quote is not part of the pattern: neither
  splits, and every digit does.
\<close>

theorem tokenize_hyphen_not_split:
  "tokenize ''well-known'' = [''well-known'']
   \<and> \<not> is_delim (CHR ''-'') \<and> \<not> is_delim (CHR 0x27) \<and> is_delim (CHR ''7'')"
  by (simp add: tokenize_def char_classes)

text \<open>The delimiter class, character by character.\<close>

lemma in_range_dot_colon: "in_range (CHR ''.'') (CHR '':'') c = (c \<in> set ''./0123456789:'')"
  by (cases c) (auto simp: in_range_def code_def)

lemma is_delim_set:
  "is_delim c = (c \<in> set '' @$/#./0123456789:&*+=[]?!(){},'' \<or> c = CHR 0x22
     \<or> c \<in> set ''>_<;%'' \<or> c = CHR 0x0A \<or> c = CHR 0x0D)"
  unfolding is_delim_def in_range_dot_colon by auto

section \<open>The tokens of processMail\<close>



lemma set_re_sub: "set (re_sub m r s) \<subseteq> set s \<union> set r"
proof (induction m r s rule: re_sub.induct)
  case (1 m r)
  then show ?case by simp
next
  case (2 m r c cs)
  show ?case
  proof (cases "m (c # cs)")
    case None
    with 2 show ?thesis by auto
  next
    case (Some k)
    show ?thesis
    proof (cases k)
      case 0
      with Some 2 show ?thesis by auto
    next
      case (Suc n)
      with Some 2 have "set (re_sub m r (drop n cs)) \<subseteq> set (drop n cs) \<union> set r" by simp
      moreover have "set (drop n cs) \<subseteq> set cs" by (rule set_drop_subset)
      ultimately show ?thesis using Some Suc by auto
    qed
  qed
qed

lemma re_sub_keeps:
  assumes "\<forall>c \<in> set s. P c" and "\<forall>c \<in> set r. P c"
  shows "\<forall>c \<in> set (re_sub m r s). P c"
  using assms set_re_sub [of m r s] by auto





text \<open>
  The loop appends the stems of the cleaned pieces that are not empty: the test for
  emptiness is made on the cleaned piece, before it is stemmed.
\<close>

lemma stem_words_map:
  "stem_words stem words clean_mail
     = clean_mail @ map stem (filter (\<lambda>w. w \<noteq> [])
         (map (\<lambda>word. strip (re_sub non_alnum_match [] word)) words))"
  by (induction words arbitrary: clean_mail) (simp_all add: Let_def)







section \<open>Idempotence of the placeholder substitution\<close>

subsection \<open>No pattern matches the empty text\<close>

lemma html_match_pos: "html_match s \<noteq> Some 0"
  by (simp add: html_match_def split: list.split)

lemma number_match_pos: "number_match s \<noteq> Some 0"
  by (simp add: number_match_def)

lemma dollar_match_pos: "dollar_match s \<noteq> Some 0"
  by (simp add: dollar_match_def)

lemma url_match_pos: "url_match s \<noteq> Some 0"
  by (simp add: url_match_def)

lemma email_match_pos: "email_match s \<noteq> Some 0"
  by (auto simp: email_match_def)

subsection \<open>Texts without a match\<close>

lemma re_sub_match_free: "match_free m s \<Longrightarrow> re_sub m r s = s"
  by (induction s) simp_all

lemma match_free_drop: "match_free m s \<Longrightarrow> match_free m (drop n s)"
proof (induction s arbitrary: n)
  case Nil
  then show ?case by simp
next
  case (Cons c cs)
  then show ?case by (cases n) simp_all
qed

lemma re_sub_kept:
  "m (c # cs) = None \<or> m (c # cs) = Some 0 \<Longrightarrow> re_sub m r (c # cs) = c # re_sub m r cs"
  by auto

lemma re_sub_replaced:
  "m (c # cs) = Some (Suc n) \<Longrightarrow> re_sub m r (c # cs) = r @ re_sub m r (drop n cs)"
  by simp

lemma matcher_cases:
  obtains "m s = None \<or> m s = Some 0" | n where "m s = Some (Suc n)"
proof (cases "m s")
  case None
  then show ?thesis using that by simp
next
  case (Some k)
  then show ?thesis using that by (cases k) simp_all
qed

lemma prefix_re_sub:
  assumes "prefix w (re_sub m (sp # r) s)" and "sp \<notin> set w"
  shows "prefix w s"
  using assms
proof (induction s arbitrary: w)
  case Nil
  then show ?case by simp
next
  case (Cons c cs)
  show ?case
  proof (cases w)
    case Nil
    then show ?thesis by simp
  next
    case w: (Cons a w')
    show ?thesis
    proof (cases rule: matcher_cases [of m "c # cs"])
      case 1
      then have "re_sub m (sp # r) (c # cs) = c # re_sub m (sp # r) cs" by (rule re_sub_kept)
      with Cons.prems(1) w have "a = c" and "prefix w' (re_sub m (sp # r) cs)" by simp_all
      moreover from Cons.prems(2) w have "sp \<notin> set w'" by simp
      ultimately have "a = c" and "prefix w' cs" using Cons.IH [of w'] by simp_all
      then show ?thesis using w by simp
    next
      case (2 n)
      then have "re_sub m (sp # r) (c # cs) = (sp # r) @ re_sub m (sp # r) (drop n cs)"
        by (rule re_sub_replaced)
      with Cons.prems w show ?thesis by simp
    qed
  qed
qed

lemma kept_head:
  assumes trig: "\<And>s. m' s \<noteq> None \<Longrightarrow>
      \<exists>w. prefix w s \<and> sp \<notin> set w \<and> (\<forall>t. prefix w t \<longrightarrow> m' t \<noteq> None)"
    and kept: "m (c # cs) = None \<or> m (c # cs) = Some 0"
    and head: "m' (c # cs) = None"
  shows "m' (c # re_sub m (sp # r) cs) = None"
proof (rule ccontr)
  assume "m' (c # re_sub m (sp # r) cs) \<noteq> None"
  from trig [OF this] obtain w where w: "prefix w (c # re_sub m (sp # r) cs)" "sp \<notin> set w"
      "\<forall>t. prefix w t \<longrightarrow> m' t \<noteq> None"
    by blast
  from w(1) have "prefix w (re_sub m (sp # r) (c # cs))"
    by (simp only: re_sub_kept [of m c cs, OF kept])
  then have "prefix w (c # cs)" using w(2) by (rule prefix_re_sub)
  with w(3) have "m' (c # cs) \<noteq> None" by blast
  with head show False by simp
qed

lemma match_free_preserved:
  assumes trig: "\<And>s. m' s \<noteq> None \<Longrightarrow>
      \<exists>w. prefix w s \<and> sp \<notin> set w \<and> (\<forall>t. prefix w t \<longrightarrow> m' t \<noteq> None)"
    and inert: "\<And>t. match_free m' t \<Longrightarrow> match_free m' ((sp # r) @ t)"
  shows "match_free m' s \<Longrightarrow> match_free m' (re_sub m (sp # r) s)"
proof (induction "length s" arbitrary: s rule: less_induct)
  case less
  show ?case
  proof (cases s)
    case Nil
    then show ?thesis by simp
  next
    case s: (Cons c cs)
    with less.prems have head: "m' (c # cs) = None" and tail: "match_free m' cs" by simp_all
    show ?thesis
    proof (cases rule: matcher_cases [of m "c # cs"])
      case 1
      have "match_free m' (re_sub m (sp # r) cs)"
        using tail by (rule less.hyps [rotated]) (simp add: s)
      moreover have "m' (c # re_sub m (sp # r) cs) = None"
        using trig 1 head by (rule kept_head)
      ultimately have "match_free m' (c # re_sub m (sp # r) cs)" by simp
      then show ?thesis by (simp only: s re_sub_kept [of m c cs, OF 1])
    next
      case (2 n)
      have "match_free m' (drop n cs)" using tail by (rule match_free_drop)
      then have "match_free m' (re_sub m (sp # r) (drop n cs))"
        by (rule less.hyps [rotated]) (simp add: s)
      then have "match_free m' ((sp # r) @ re_sub m (sp # r) (drop n cs))" by (rule inert)
      then show ?thesis by (simp only: s re_sub_replaced [of m c cs n, OF 2])
    qed
  qed
qed

lemma match_free_own:
  assumes trig: "\<And>s. m s \<noteq> None \<Longrightarrow>
      \<exists>w. prefix w s \<and> sp \<notin> set w \<and> (\<forall>t. prefix w t \<longrightarrow> m t \<noteq> None)"
    and inert: "\<And>t. match_free m t \<Longrightarrow> match_free m ((sp # r) @ t)"
    and pos: "\<And>s. m s \<noteq> Some 0"
  shows "match_free m (re_sub m (sp # r) s)"
proof (induction "length s" arbitrary: s rule: less_induct)
  case less
  show ?case
  proof (cases s)
    case Nil
    then show ?thesis by simp
  next
    case s: (Cons c cs)
    show ?thesis
    proof (cases rule: matcher_cases [of m "c # cs"])
      case 1
      with pos [of "c # cs"] have head: "m (c # cs) = None" by simp
      have "match_free m (re_sub m (sp # r) cs)"
        by (rule less.hyps) (simp add: s)
      moreover have "m (c # re_sub m (sp # r) cs) = None"
        using trig 1 head by (rule kept_head)
      ultimately have "match_free m (c # re_sub m (sp # r) cs)" by simp
      then show ?thesis by (simp only: s re_sub_kept [of m c cs, OF 1])
    next
      case (2 n)
      have "match_free m (re_sub m (sp # r) (drop n cs))"
        by (rule less.hyps) (simp add: s)
      then have "match_free m ((sp # r) @ re_sub m (sp # r) (drop n cs))" by (rule inert)
      then show ?thesis by (simp only: s re_sub_replaced [of m c cs n, OF 2])
    qed
  qed
qed

subsection \<open>Runs of one character class\<close>

lemma run_sub_free:
  assumes m: "\<And>s. m s = (if takeWhile P s = [] then None else Some (length (takeWhile P s)))"
    and r: "\<forall>c \<in> set r. \<not> P c"
  shows "\<forall>c \<in> set (re_sub m r s). \<not> P c"
proof (induction "length s" arbitrary: s rule: less_induct)
  case less
  show ?case
  proof (cases s)
    case Nil
    then show ?thesis by simp
  next
    case s: (Cons c cs)
    show ?thesis
    proof (cases rule: matcher_cases [of m "c # cs"])
      case 1
      then have "\<not> P c" by (auto simp: m split: if_splits)
      moreover have "\<forall>c \<in> set (re_sub m r cs). \<not> P c"
        by (rule less.hyps) (simp add: s)
      ultimately show ?thesis unfolding s re_sub_kept [of m c cs, OF 1] by simp
    next
      case (2 n)
      have "\<forall>c \<in> set (re_sub m r (drop n cs)). \<not> P c"
        by (rule less.hyps) (simp add: s)
      with r show ?thesis unfolding s re_sub_replaced [of m c cs n, OF 2] by auto
    qed
  qed
qed

lemma run_match_free:
  assumes m: "\<And>s. m s = (if takeWhile P s = [] then None else Some (length (takeWhile P s)))"
    and s: "\<forall>c \<in> set s. \<not> P c"
  shows "match_free m s"
  using s by (induction s) (simp_all add: m)

lemma number_sub_no_digit: "\<forall>c \<in> set (number_sub s). \<not> is_digit c"
  unfolding number_sub_def
  by (rule run_sub_free [of number_match is_digit]) (simp_all add: number_match_def char_classes)

lemma dollar_sub_no_dollar: "\<forall>c \<in> set (dollar_sub s). \<not> is_dollar c"
  unfolding dollar_sub_def
  by (rule run_sub_free [of dollar_match is_dollar]) (simp_all add: dollar_match_def char_classes)

lemma number_sub_fixed: "\<forall>c \<in> set s. \<not> is_digit c \<Longrightarrow> number_sub s = s"
  unfolding number_sub_def
  by (intro re_sub_match_free run_match_free [of number_match is_digit]) (simp_all add: number_match_def)

lemma dollar_sub_fixed: "\<forall>c \<in> set s. \<not> is_dollar c \<Longrightarrow> dollar_sub s = s"
  unfolding dollar_sub_def
  by (intro re_sub_match_free run_match_free [of dollar_match is_dollar]) (simp_all add: dollar_match_def)

subsection \<open>Addresses\<close>

lemma url_trigger:
  assumes "url_match s \<noteq> None"
  shows "\<exists>w. prefix w s \<and> CHR '' '' \<notin> set w \<and> (\<forall>t. prefix w t \<longrightarrow> url_match t \<noteq> None)"
proof (cases "prefix ''http://'' s")
  case True
  then have "prefix ''http://'' s \<and> CHR '' '' \<notin> set ''http://''
      \<and> (\<forall>t. prefix ''http://'' t \<longrightarrow> url_match t \<noteq> None)"
    by (simp add: url_match_def)
  then show ?thesis by blast
next
  case False
  with assms have "prefix ''https://'' s" by (simp add: url_match_def split: if_splits)
  then have "prefix ''https://'' s \<and> CHR '' '' \<notin> set ''https://''
      \<and> (\<forall>t. prefix ''https://'' t \<longrightarrow> url_match t \<noteq> None)"
    by (simp add: url_match_def)
  then show ?thesis by blast
qed

lemma url_inert:
  "match_free url_match t \<Longrightarrow> match_free url_match ('' httpaddr '' @ t)"
  "match_free url_match t \<Longrightarrow> match_free url_match ('' emailaddr '' @ t)"
  "match_free url_match t \<Longrightarrow> match_free url_match ('' dollar '' @ t)"
  by (simp_all add: url_match_def)

lemma space_is_space: "is_space (CHR '' '')"
  by (simp add: is_space_def code_def)

lemma email_trigger:
  assumes "email_match s \<noteq> None"
  shows "\<exists>w. prefix w s \<and> CHR '' '' \<notin> set w \<and> (\<forall>t. prefix w t \<longrightarrow> email_match t \<noteq> None)"
proof -
  let ?w = "takeWhile not_space s"
  from assms have at: "CHR ''@'' \<in> set (butlast (tl ?w))"
    by (simp add: email_match_def split: if_splits)
  then have ne: "?w \<noteq> []" by auto
  have "prefix ?w s" by (metis prefixI takeWhile_dropWhile_id)
  moreover have "CHR '' '' \<notin> set ?w"
    using space_is_space by (auto simp: not_space_def dest: set_takeWhileD)
  moreover have "\<forall>t. prefix ?w t \<longrightarrow> email_match t \<noteq> None"
  proof (intro allI impI)
    fix t assume "prefix ?w t"
    then obtain u where t: "t = ?w @ u" by (auto simp: prefix_def)
    have "takeWhile not_space t = ?w @ takeWhile not_space u"
      unfolding t by (rule takeWhile_append2) (auto dest: set_takeWhileD)
    then have "tl (takeWhile not_space t) = tl ?w @ takeWhile not_space u"
      using ne by simp
    moreover have "CHR ''@'' \<in> set (butlast (tl ?w @ takeWhile not_space u))"
      using at by (auto simp: butlast_append dest: in_set_butlastD)
    ultimately show "email_match t \<noteq> None" by (simp add: email_match_def)
  qed
  ultimately show ?thesis by blast
qed

lemma email_inert:
  "match_free email_match t \<Longrightarrow> match_free email_match ('' emailaddr '' @ t)"
  "match_free email_match t \<Longrightarrow> match_free email_match ('' dollar '' @ t)"
  by (simp_all add: email_match_def not_space_def is_space_def code_def)

lemma url_sub_free: "match_free url_match (url_sub s)"
  unfolding url_sub_def
  by (rule match_free_own) (erule url_trigger, erule url_inert, rule url_match_pos)

lemma email_sub_free: "match_free email_match (email_sub s)"
  unfolding email_sub_def
  by (rule match_free_own) (erule email_trigger, erule email_inert, rule email_match_pos)

lemma url_free_email_sub: "match_free url_match s \<Longrightarrow> match_free url_match (email_sub s)"
  unfolding email_sub_def
  by (rule match_free_preserved) (erule url_trigger, erule url_inert, assumption)

lemma url_free_dollar_sub: "match_free url_match s \<Longrightarrow> match_free url_match (dollar_sub s)"
  unfolding dollar_sub_def
  by (rule match_free_preserved) (erule url_trigger, erule url_inert, assumption)

lemma email_free_dollar_sub: "match_free email_match s \<Longrightarrow> match_free email_match (dollar_sub s)"
  unfolding dollar_sub_def
  by (rule match_free_preserved) (erule email_trigger, erule email_inert, assumption)

lemma no_digit_literals:
  "\<forall>c \<in> set '' httpaddr ''. \<not> is_digit c" "\<forall>c \<in> set '' emailaddr ''. \<not> is_digit c"
  "\<forall>c \<in> set '' dollar ''. \<not> is_digit c"
  by (simp_all add: char_classes)

lemma placeholders_no_digit: "\<forall>c \<in> set (placeholders s). \<not> is_digit c"
proof -
  have "\<forall>c \<in> set (number_sub s). \<not> is_digit c" by (rule number_sub_no_digit)
  then show ?thesis
    unfolding placeholders_def url_sub_def email_sub_def dollar_sub_def
    by (intro re_sub_keeps no_digit_literals)
qed

lemma placeholders_url_free: "match_free url_match (placeholders s)"
  unfolding placeholders_def
  by (intro url_free_dollar_sub url_free_email_sub url_sub_free)

lemma placeholders_email_free: "match_free email_match (placeholders s)"
  unfolding placeholders_def
  by (intro email_free_dollar_sub email_sub_free)

lemma placeholders_no_dollar: "\<forall>c \<in> set (placeholders s). \<not> is_dollar c"
  unfolding placeholders_def by (rule dollar_sub_no_dollar)

text \<open>
  Claim C7: the four placeholder substitutions, applied in the order of the source, are
  idempotent: the substituted text has no digit, no address and no dollar sign left, and
  the inserted words are matched by none of the four patterns.
\<close>

theorem placeholders_idempotent: "placeholders (placeholders mail) = placeholders mail"
proof -
  let ?s = "placeholders mail"
  have "number_sub ?s = ?s"
    by (rule number_sub_fixed) (rule placeholders_no_digit)
  moreover have "url_sub ?s = ?s"
    unfolding url_sub_def by (rule re_sub_match_free) (rule placeholders_url_free)
  moreover have "email_sub ?s = ?s"
    unfolding email_sub_def by (rule re_sub_match_free) (rule placeholders_email_free)
  moreover have "dollar_sub ?s = ?s"
    by (rule dollar_sub_fixed) (rule placeholders_no_dollar)
  ultimately show ?thesis
    by (simp add: placeholders_def [of ?s])
qed

lemma placeholders_example:
  "placeholders ''pay $5 to a@b.c at http://x.y'' = ''pay  dollar  number  to  emailaddr  at  httpaddr ''"
  by (simp add: placeholders_def matchers char_classes)

theorem placeholders_idempotent_witness:
  "placeholders ''pay $5 to a@b.c at http://x.y'' = ''pay  dollar  number  to  emailaddr  at  httpaddr ''
   \<and> placeholders ''pay  dollar  number  to  emailaddr  at  httpaddr ''
       = ''pay  dollar  number  to  emailaddr  at  httpaddr ''"
  using placeholders_idempotent [of "''pay $5 to a@b.c at http://x.y''"]
  by (simp only: placeholders_example)

section \<open>The vocabulary\<close>

subsection \<open>The dictionary\<close>

lemma map_of_dict_set: "map_of (dict_set k v d) = (map_of d)(k \<mapsto> v)"
  by (induction d) (auto simp: fun_eq_iff)

lemma keys_dict_set:
  "map fst (dict_set k v d) = (if k \<in> set (map fst d) then map fst d else map fst d @ [k])"
  by (induction d) force+

lemma keys_count_word:
  "map fst (count_word d w) = (if w \<in> set (map fst d) then map fst d else map fst d @ [w])"
  by (simp add: count_word_def keys_dict_set split: option.split)

lemma map_of_count_word:
  "map_of (count_word d w) = (map_of d)(w \<mapsto> (case map_of d w of Some c \<Rightarrow> c + 1 | None \<Rightarrow> 1))"
  by (simp add: count_word_def map_of_dict_set split: option.split)

lemma count_mail_append: "count_mail d (xs @ ys) = count_mail (count_mail d xs) ys"
  by (induction xs arbitrary: d) simp_all

lemma count_mails_concat: "count_mails d mails = count_mail d (concat mails)"
  by (induction mails arbitrary: d) (simp_all add: count_mail_append)

lemma filter_notin_neq:
  "w \<in> A \<Longrightarrow> filter (\<lambda>y. y \<noteq> w \<and> y \<notin> A) xs = filter (\<lambda>y. y \<notin> A) xs"
  by (rule filter_cong) auto

lemma keys_count_mail:
  "map fst (count_mail d ws) = map fst d @ filter (\<lambda>w. w \<notin> set (map fst d)) (first_seen ws)"
proof (induction ws arbitrary: d)
  case Nil
  then show ?case by simp
next
  case (Cons w ws)
  show ?case
  proof (cases "w \<in> set (map fst d)")
    case True
    then show ?thesis
      by (simp add: Cons.IH keys_count_word filter_notin_neq del: set_map)
  next
    case False
    then show ?thesis
      by (simp add: Cons.IH keys_count_word del: set_map)
  qed
qed

lemma map_of_count_mail:
  "map_of (count_mail d ws) w =
     (if w \<in> set ws then Some (count_list ws w + (case map_of d w of Some c \<Rightarrow> c | None \<Rightarrow> 0))
      else map_of d w)"
  by (induction ws arbitrary: d) (auto simp: map_of_count_word split: option.splits)

lemma set_first_seen: "set (first_seen xs) = set xs"
  by (induction xs) auto

lemma distinct_first_seen: "distinct (first_seen xs)"
  by (induction xs) auto

lemma keys_count_mails: "map fst (count_mails [] mails) = first_seen (concat mails)"
  by (simp add: count_mails_concat keys_count_mail)

lemma count_mails_value:
  assumes "p \<in> set (count_mails [] mails)"
  shows "snd p = occurrences mails (fst p)"
proof -
  have "distinct (map fst (count_mails [] mails))"
    by (simp add: keys_count_mails distinct_first_seen)
  then have "map_of (count_mails [] mails) (fst p) = Some (snd p)"
    using assms by (cases p) simp
  moreover have "fst p \<in> set (concat mails)"
    using assms keys_count_mails [of mails] set_first_seen [of "concat mails"]
    by (metis image_eqI list.set_map)
  ultimately show ?thesis
    by (simp add: count_mails_concat map_of_count_mail occurrences_def)
qed

subsection \<open>Sorting\<close>

lemma map_insort_key:
  assumes "f x = h (g x)" and "\<forall>y \<in> set xs. f y = h (g y)"
  shows "map g (insort_key f x xs) = insort_key h (g x) (map g xs)"
  using assms by (induction xs) auto

lemma map_sort_key:
  assumes "\<forall>y \<in> set xs. f y = h (g y)"
  shows "map g (sort_key f xs) = sort_key h (map g xs)"
  using assms by (induction xs) (simp_all add: map_insort_key)

lemma map_sorted_reverse:
  assumes "\<forall>y \<in> set xs. f y = h (g y)"
  shows "map g (sorted_reverse f xs) = sorted_reverse h (map g xs)"
proof -
  have "map g (sort_key f (rev xs)) = sort_key h (map g (rev xs))"
    using assms by (intro map_sort_key) simp
  then have "rev (map g (sort_key f (rev xs))) = rev (sort_key h (rev (map g xs)))"
    by (simp add: rev_map)
  then show ?thesis
    by (simp add: sorted_reverse_def rev_map)
qed

lemma sorted_words_eq:
  "sorted_words mails = sorted_reverse (occurrences mails) (first_seen (concat mails))"
  unfolding sorted_words_def
  by (subst map_sorted_reverse [where h = "occurrences mails"])
     (simp_all add: count_mails_value keys_count_mails)



lemma length_sorted_reverse: "length (sorted_reverse f xs) = length xs"
  by (simp add: sorted_reverse_def)

lemma descending_sorted_reverse: "sorted_wrt (\<lambda>a b. f b \<le> f a) (sorted_reverse f xs)"
proof -
  have "sorted (map f (sort_key f (rev xs)))" by (rule sorted_sort_key)
  then show ?thesis
    by (simp add: sorted_reverse_def sorted_wrt_rev sorted_map)
qed

lemma stable_sorted_reverse:
  "filter (\<lambda>y. f y = k) (sorted_reverse f xs) = filter (\<lambda>y. f y = k) xs"
  by (simp add: sorted_reverse_def sort_key_stable rev_filter [symmetric])




lemma descending_sorted_words:
  "sorted_wrt (\<lambda>a b. occurrences mails b \<le> occurrences mails a) (sorted_words mails)"
  by (simp add: sorted_words_eq descending_sorted_reverse)



subsection \<open>Order of first occurrence\<close>

lemma takeWhile_neq_filter:
  "P b \<Longrightarrow> takeWhile (\<lambda>x. x \<noteq> b) (filter P xs) = filter P (takeWhile (\<lambda>x. x \<noteq> b) xs)"
  by (induction xs) auto

lemma first_pos_less_before:
  "first_pos xs a < first_pos xs b \<Longrightarrow> a \<in> set (takeWhile (\<lambda>x. x \<noteq> b) xs)"
  unfolding first_pos_def by (induction xs) (auto split: if_splits)

lemma before_first_pos_less:
  "a \<in> set (takeWhile (\<lambda>x. x \<noteq> b) xs) \<Longrightarrow> first_pos xs a < first_pos xs b"
  unfolding first_pos_def by (induction xs) (auto split: if_splits)

lemma before_first_seen:
  "a \<in> set (takeWhile (\<lambda>x. x \<noteq> b) xs) \<Longrightarrow> a \<in> set (takeWhile (\<lambda>x. x \<noteq> b) (first_seen xs))"
proof (induction xs)
  case Nil
  then show ?case by simp
next
  case (Cons x xs)
  from Cons.prems have xb: "x \<noteq> b" by (auto split: if_splits)
  show ?case
  proof (cases "a = x")
    case True
    with xb show ?thesis by simp
  next
    case False
    with Cons.prems xb have "a \<in> set (takeWhile (\<lambda>x. x \<noteq> b) xs)" by simp
    then have "a \<in> set (takeWhile (\<lambda>x. x \<noteq> b) (first_seen xs))" by (rule Cons.IH)
    with False xb show ?thesis
      by (simp add: takeWhile_neq_filter [of "\<lambda>y. y \<noteq> x" b])
  qed
qed

lemma first_pos_nth: "a \<in> set xs \<Longrightarrow> first_pos xs a < length xs \<and> xs ! first_pos xs a = a"
  unfolding first_pos_def by (induction xs) auto

lemma createVocabulary_take: "\<exists>n. createVocabulary mails K = take n (sorted_words mails)"
  unfolding createVocabulary_def slice_to_def by (cases "K < 0") auto

lemma before_sorted_reverse:
  assumes "a \<in> set (takeWhile (\<lambda>x. x \<noteq> b) xs)" and "f a = f b"
  shows "a \<in> set (takeWhile (\<lambda>x. x \<noteq> b) (sorted_reverse f xs))"
proof -
  let ?P = "\<lambda>y. f y = f b"
  have "a \<in> set (filter ?P (takeWhile (\<lambda>x. x \<noteq> b) xs))"
    using assms by simp
  then have "a \<in> set (takeWhile (\<lambda>x. x \<noteq> b) (filter ?P xs))"
    by (simp add: takeWhile_neq_filter [of ?P b])
  then have "a \<in> set (takeWhile (\<lambda>x. x \<noteq> b) (filter ?P (sorted_reverse f xs)))"
    by (simp add: stable_sorted_reverse)
  then have "a \<in> set (filter ?P (takeWhile (\<lambda>x. x \<noteq> b) (sorted_reverse f xs)))"
    by (simp add: takeWhile_neq_filter [of ?P b])
  then show ?thesis by simp
qed

text \<open>
  Claim C10: of two vocabulary words with the same number of occurrences, the one whose
  first occurrence in the corpus is earlier has the lower index in the vocabulary. The
  vocabulary is a function of the corpus and \<open>K\<close>.
\<close>

theorem createVocabulary_ties_first_seen:
  assumes "a \<in> set (createVocabulary mails K)" and "b \<in> set (createVocabulary mails K)"
    and "occurrences mails a = occurrences mails b"
    and "first_pos (concat mails) a < first_pos (concat mails) b"
  shows "first_pos (createVocabulary mails K) a < first_pos (createVocabulary mails K) b"
proof -
  obtain n where V: "createVocabulary mails K = take n (sorted_words mails)"
    using createVocabulary_take by blast
  let ?L = "sorted_words mails"
  have "a \<in> set (takeWhile (\<lambda>x. x \<noteq> b) (first_seen (concat mails)))"
    using assms(4) by (intro before_first_seen first_pos_less_before)
  then have "a \<in> set (takeWhile (\<lambda>x. x \<noteq> b) ?L)"
    using assms(3) unfolding sorted_words_eq by (rule before_sorted_reverse)
  moreover have "takeWhile (\<lambda>x. x \<noteq> b) (take n ?L @ drop n ?L) = takeWhile (\<lambda>x. x \<noteq> b) (take n ?L)"
    using assms(2) unfolding V by (intro takeWhile_append1) simp_all
  ultimately have "a \<in> set (takeWhile (\<lambda>x. x \<noteq> b) (take n ?L))" by simp
  then show ?thesis
    unfolding V by (rule before_first_pos_less)
qed

lemmas vocabulary_defs = createVocabulary_def slice_to_def sorted_words_def sorted_reverse_def
  count_word_def occurrences_def first_pos_def

lemma createVocabulary_example:
  "createVocabulary [[''b'', ''a''], [''a'', ''b'', ''c'']] 2 = [''b'', ''a'']"
  by (simp add: vocabulary_defs)

theorem createVocabulary_ties_first_seen_witness:
  "createVocabulary [[''b'', ''a''], [''a'', ''b'', ''c'']] 2 = [''b'', ''a'']
   \<and> occurrences [[''b'', ''a''], [''a'', ''b'', ''c'']] ''b'' = 2
   \<and> occurrences [[''b'', ''a''], [''a'', ''b'', ''c'']] ''a'' = 2
   \<and> first_pos (createVocabulary [[''b'', ''a''], [''a'', ''b'', ''c'']] 2) ''b''
       < first_pos (createVocabulary [[''b'', ''a''], [''a'', ''b'', ''c'']] 2) ''a''"
proof -
  let ?mails = "[[''b'', ''a''], [''a'', ''b'', ''c'']]"
  have V: "createVocabulary ?mails 2 = [''b'', ''a'']" by (rule createVocabulary_example)
  have a: "''b'' \<in> set (createVocabulary ?mails 2)" and b: "''a'' \<in> set (createVocabulary ?mails 2)"
    by (simp_all add: V)
  have occ: "occurrences ?mails ''b'' = 2" "occurrences ?mails ''a'' = 2"
    by (simp_all add: occurrences_def)
  have pos: "first_pos (concat ?mails) ''b'' < first_pos (concat ?mails) ''a''"
    by (simp add: first_pos_def)
  show ?thesis
    using createVocabulary_ties_first_seen [OF a b _ pos] occ V by simp
qed

section \<open>The feature matrix\<close>

lemma take_Suc_update: "k < length r \<Longrightarrow> take (Suc k) (r[k := v]) = take k r @ [v]"
  by (simp add: take_Suc_conv_app_nth)

lemma fill_row_enumerate:
  "i < length X \<Longrightarrow> k + length ws \<le> length (X ! i) \<Longrightarrow>
   fill_row X i mail (enumerate k ws)
     = X[i := take k (X ! i) @ map (indicator mail) ws @ drop (k + length ws) (X ! i)]"
proof (induction ws arbitrary: k X)
  case Nil
  then show ?case by simp
next
  case (Cons w ws)
  let ?v = "indicator mail w"
  let ?X = "set_entry X i k ?v"
  have row: "?X ! i = (X ! i)[k := ?v]" and len: "i < length ?X"
    using Cons.prems by (simp_all add: set_entry_def)
  have "fill_row X i mail (enumerate k (w # ws)) = fill_row ?X i mail (enumerate (Suc k) ws)"
    by (simp add: indicator_def)
  also have "\<dots> = ?X[i := take (Suc k) (?X ! i) @ map (indicator mail) ws
                        @ drop (Suc k + length ws) (?X ! i)]"
    using Cons.prems len row by (intro Cons.IH) simp_all
  also have "\<dots> = X[i := take k (X ! i) @ map (indicator mail) (w # ws)
                        @ drop (k + length (w # ws)) (X ! i)]"
    using Cons.prems by (simp add: row set_entry_def take_Suc_update)
  finally show ?case .
qed

lemma fill_row_whole:
  "i < length X \<Longrightarrow> length (X ! i) = length vocab \<Longrightarrow>
   fill_row X i mail (enumerate 0 vocab) = X[i := map (indicator mail) vocab]"
  using fill_row_enumerate [of i X 0 vocab mail] by simp

lemma rows_update:
  assumes "\<forall>r \<in> set X. length r = n" and "length v = n"
  shows "\<forall>r \<in> set (X[k := v]). length r = n"
  using assms set_update_subset_insert [of X k v] by auto

lemma fill_rows_enumerate:
  "k + length ms \<le> length X \<Longrightarrow> \<forall>r \<in> set X. length r = length vocab \<Longrightarrow>
   fill_rows X vocab (enumerate k ms)
     = take k X @ map (\<lambda>mail. map (indicator mail) vocab) ms @ drop (k + length ms) X"
proof (induction ms arbitrary: k X)
  case Nil
  then show ?case by simp
next
  case (Cons mail ms)
  let ?X = "X[k := map (indicator mail) vocab]"
  have k: "k < length X" using Cons.prems(1) by simp
  have "length (X ! k) = length vocab"
    using Cons.prems(2) k by simp
  then have step: "fill_row X k mail (enumerate 0 vocab) = ?X"
    using k by (rule fill_row_whole [rotated])
  have rows: "\<forall>r \<in> set ?X. length r = length vocab"
    using Cons.prems(2) by (rule rows_update) simp
  have len: "Suc k + length ms \<le> length ?X"
    using Cons.prems(1) by simp
  have "fill_rows X vocab (enumerate k (mail # ms)) = fill_rows ?X vocab (enumerate (Suc k) ms)"
    by (simp add: step)
  also have "\<dots> = take (Suc k) ?X @ map (\<lambda>mail. map (indicator mail) vocab) ms
                      @ drop (Suc k + length ms) ?X"
    using len rows by (rule Cons.IH)
  also have "\<dots> = take k X @ map (\<lambda>mail. map (indicator mail) vocab) (mail # ms)
                      @ drop (k + length (mail # ms)) X"
    using k by (simp add: take_Suc_update)
  finally show ?case .
qed

lemma getFeatureMatrix_map:
  "getFeatureMatrix mails vocab = map (\<lambda>mail. map (indicator mail) vocab) mails"
  using fill_rows_enumerate [of 0 mails "zeros (length mails) (length vocab)" vocab]
  by (simp add: getFeatureMatrix_def zeros_def)

text \<open>
  Claim C5: the row that \<open>getFeatureMatrix\<close> produces for a message has the length of the
  vocabulary; its entry \<open>j\<close> is 1 when the \<open>j\<close>-th vocabulary word occurs in the message
  and 0 otherwise; the row of an empty message is all zeros.
\<close>

theorem getFeatureMatrix_row:
  assumes "i < length mails"
  shows "length (getFeatureMatrix mails vocab) = length mails
    \<and> length (getFeatureMatrix mails vocab ! i) = length vocab
    \<and> (\<forall>j < length vocab.
          getFeatureMatrix mails vocab ! i ! j = (if vocab ! j \<in> set (mails ! i) then 1 else 0))
    \<and> (mails ! i = [] \<longrightarrow> getFeatureMatrix mails vocab ! i = replicate (length vocab) 0)"
proof -
  have "map (indicator []) vocab = replicate (length vocab) 0"
    by (induction vocab) (simp_all add: indicator_def)
  then show ?thesis
    using assms by (simp add: getFeatureMatrix_map indicator_def)
qed

theorem getFeatureMatrix_row_witness:
  "length (getFeatureMatrix [[''buy'', ''now''], []] [''now'', ''meds'']) = 2
   \<and> getFeatureMatrix [[''buy'', ''now''], []] [''now'', ''meds''] ! 1 = [0, 0]"
proof -
  have 1: "(1::nat) < length [[''buy'', ''now''], []]" by simp
  show ?thesis
    using getFeatureMatrix_row [OF 1, of "[''now'', ''meds'']"] by simp
qed

section \<open>Prediction\<close>

text \<open>
  Claim C9: with an empty list of file names \<open>predictSamples\<close> prints that there is
  nothing to predict and returns; it opens no file and calls neither \<open>getFeatureMatrix\<close>
  nor the classifier, whatever the state of the vocabulary and the model.
\<close>

theorem predictSamples_empty: "predictSamples stem e [] = Returned [Print ''Nothing to predict.'']"
  by (simp add: predictSamples_def msg_nothing_def)

lemma printed_lines_append: "printed_lines (xs @ ys) = printed_lines xs @ printed_lines ys"
  by (induction xs rule: printed_lines.induct) simp_all

lemma read_mails_printed:
  "printed_lines (fst (read_mails stem rd fs evs cm))
     = printed_lines evs @ map msg_unreadable (filter (\<lambda>f. rd f = None) fs)"
  by (induction fs arbitrary: evs cm) (simp_all add: printed_lines_append split: option.split)

lemma report_printed:
  "printed (report fs ps evs)
     = printed_lines evs @ map (\<lambda>(i, p). msg_label (fs ! i) p) (takeWhile (\<lambda>(i, p). i < length fs) ps)"
  by (induction fs ps evs rule: report.induct) (simp_all add: printed_def printed_lines_append)

lemma msg_label_neq [simp]:
  "msg_label f p \<noteq> msg_no_vocabulary" "msg_label f p \<noteq> msg_no_model"
  "msg_no_vocabulary \<noteq> msg_label f p" "msg_no_model \<noteq> msg_label f p"
  by (auto simp: msg_label_def msg_no_vocabulary_def msg_no_model_def dest!: arg_cong [where f = rev])

lemma msg_unreadable_neq [simp]:
  "msg_unreadable f \<noteq> msg_no_vocabulary" "msg_unreadable f \<noteq> msg_no_model"
  "msg_no_vocabulary \<noteq> msg_unreadable f" "msg_no_model \<noteq> msg_unreadable f"
  by (simp_all add: msg_unreadable_def msg_no_vocabulary_def msg_no_model_def)

lemma msg_failure_neq [simp]: "msg_no_vocabulary \<noteq> msg_no_model" "msg_no_model \<noteq> msg_no_vocabulary" 
  by (simp_all add: msg_no_vocabulary_def msg_no_model_def)

lemma predictSamples_printed:
  assumes "filenames \<noteq> []"
  shows "printed (predictSamples stem e filenames)
    = map msg_unreadable (filter (\<lambda>f. read_file e f = None) filenames) @
      (case vocabulary e of
         None \<Rightarrow> [msg_no_vocabulary]
       | Some vocab \<Rightarrow>
           (case clf e of
              None \<Rightarrow> [msg_no_model]
            | Some predict \<Rightarrow>
                (case predict (getFeatureMatrix (snd (read_mails stem (read_file e) filenames [] [])) vocab) of
                   None \<Rightarrow> [msg_no_model]
                 | Some predictions \<Rightarrow>
                     map (\<lambda>(i, p). msg_label (filenames ! i) p)
                       (takeWhile (\<lambda>(i, p). i < length filenames) (enumerate 0 predictions)))))"
proof -
  obtain evs clean_mails where rm: "read_mails stem (read_file e) filenames [] [] = (evs, clean_mails)"
    by (cases "read_mails stem (read_file e) filenames [] []")
  have evs: "printed_lines evs = map msg_unreadable (filter (\<lambda>f. read_file e f = None) filenames)"
    using read_mails_printed [of stem "read_file e" filenames "[]" "[]"] rm by simp
  show ?thesis
    using assms
    by (simp add: predictSamples_def rm report_printed printed_lines_append evs [symmetric]
        split: option.split)
       (simp add: printed_def printed_lines_append)
qed



text \<open>
  The rows of the matrix belong to the files that could be read, in their order. When every
  file can be read and the classifier decides row by row, each file name is printed with
  the label of its own text.
\<close>

lemma read_mails_clean:
  "snd (read_mails stem rd fs evs cm) = cm @ map (processMail stem) (List.map_filter rd fs)"
  by (induction fs arbitrary: evs cm) (simp_all add: List.map_filter_simps split: option.split)

lemma predictSamples_all_readable:
  assumes "filenames \<noteq> []" and "\<forall>f \<in> set filenames. read_file e f \<noteq> None"
    and "vocabulary e = Some vocab" and "clf e = Some (\<lambda>X. Some (map decide X))"
  shows "printed (predictSamples stem e filenames)
    = map (\<lambda>f. msg_label f (decide (map (indicator (processMail stem (the (read_file e f)))) vocab)))
        filenames"
proof -
  have mf: "List.map_filter (read_file e) filenames = map (\<lambda>f. the (read_file e f)) filenames"
    using assms(2) by (induction filenames) (auto simp: List.map_filter_simps)
  have none: "filter (\<lambda>f. read_file e f = None) filenames = []"
    using assms(2) by (simp add: filter_empty_conv)
  have labels: "map (\<lambda>(i, p). msg_label (fs ! i) p) (takeWhile (\<lambda>(i, p). i < length fs) (enumerate 0 (map g fs)))
      = map (\<lambda>f. msg_label f (g f)) fs" for fs :: "string list" and g
  proof -
    have "takeWhile (\<lambda>(i, p). i < length fs) (enumerate 0 (map g fs)) = enumerate 0 (map g fs)"
      by (auto simp: in_set_enumerate_eq)
    then show ?thesis
      by (simp add: list_eq_iff_nth_eq nth_enumerate_eq)
  qed
  show ?thesis
    using labels [of filenames "\<lambda>f. decide (map (indicator (processMail stem (the (read_file e f)))) vocab)"]
    by (simp add: predictSamples_printed [OF assms(1)] assms(3,4) none read_mails_clean mf
        getFeatureMatrix_map comp_def)
qed

lemma processMail_example: "processMail (\<lambda>w. w) ''\<newline>\<newline>buy'' = [''buy'']"
  by (simp add: process_defs char_classes matchers)

lemma getFeatureMatrix_example: "getFeatureMatrix [[''buy'']] [''buy''] = [[1]]"
  by (simp add: getFeatureMatrix_def zeros_def set_entry_def)

text \<open>
  Claim C1: the label printed for a file name is the prediction for that file's text, also
  when an earlier file was skipped. Prediction \<open>i\<close> belongs to the \<open>i\<close>-th file that was
  read, but it is printed under \<open>filenames[i]\<close>: after the unreadable \<open>missing.txt\<close> the
  label of \<open>mail.txt\<close> is printed under the name \<open>missing.txt\<close>, and no line is printed
  for \<open>mail.txt\<close>.
\<close>

theorem predictSamples_label_under_skipped_name:
  "predictSamples (\<lambda>w. w) example_env [''missing.txt'', ''mail.txt'']
   = Returned [ReadFile ''missing.txt'', Print ''Could not read missing.txt.'',
       ReadFile ''mail.txt'', Vectorize, Classify, Print ''missing.txt is spam.'']"
  by (simp add: predictSamples_def example_env_def processMail_example getFeatureMatrix_example
      msg_unreadable_def msg_label_def)

end
